theory Spec2Isabelle
  imports Main
begin

section \<open>Calendar dates as the JavaScript \<^verbatim>\<open>Date\<close> object exposes them\<close>

text \<open>
  The hook reads the clock with \<^verbatim>\<open>new Date()\<close> and only ever looks at the local-time
  fields of the result. A valid \<^verbatim>\<open>Date\<close> is modelled by those fields: the full year, the
  month index (0 = January .. 11 = December), the day of the month, and the time of day in
  milliseconds since local midnight (hours, minutes, seconds and milliseconds together).
  The fields carry the names of the getters the source calls.
\<close>

record jsdate =
  getFullYear :: int
  getMonth :: int
  getDate :: int
  msOfDay :: int

definition isLeapYear :: "int \<Rightarrow> bool" where
  "isLeapYear y = ((y mod 4 = 0 \<and> y mod 100 \<noteq> 0) \<or> y mod 400 = 0)"

definition daysInMonth :: "int \<Rightarrow> int \<Rightarrow> int" where
  "daysInMonth y m =
     (if m = 1 then (if isLeapYear y then 29 else 28)
      else if m = 3 \<or> m = 5 \<or> m = 8 \<or> m = 10 then 30
      else 31)"

text \<open>What the clock can read: a well-formed local date and time, not before 1970.\<close>

definition clock_date :: "jsdate \<Rightarrow> bool" where
  "clock_date d =
     (1970 \<le> getFullYear d \<and>
      0 \<le> getMonth d \<and> getMonth d < 12 \<and>
      1 \<le> getDate d \<and> getDate d \<le> daysInMonth (getFullYear d) (getMonth d) \<and>
      0 \<le> msOfDay d \<and> msOfDay d < 86400000)"

text \<open>
  \<^verbatim>\<open>Date\<close> normalises a day number that lies outside its month: day 0 is the last day of
  the month before, day \<open>n + 1\<close> of an \<open>n\<close>-day month is the first day of the month after,
  and so on in both directions. \<open>normDay\<close> is that normalisation for a month index that
  is already in range.
\<close>

function normDay :: "int \<Rightarrow> int \<Rightarrow> int \<Rightarrow> int \<times> int \<times> int" where
  "normDay y m d =
     (if d < 1 then
        (if m = 0 then normDay (y - 1) 11 (d + daysInMonth (y - 1) 11)
         else normDay y (m - 1) (d + daysInMonth y (m - 1)))
      else if d > daysInMonth y m then
        (if m = 11 then normDay (y + 1) 0 (d - daysInMonth y m)
         else normDay y (m + 1) (d - daysInMonth y m))
      else (y, m, d))"
  by pat_completeness auto
termination
proof (relation "measure (\<lambda>(y, m, d). if d < 1 then nat (1 - d) + 32 else nat d)")
  show "wf (measure (\<lambda>(y, m, d). if d < 1 then nat (1 - d) + 32 else nat d))"
    by simp
next
  fix y m d :: int
  assume "d < 1" "m = 0"
  then show "((y - 1, 11, d + daysInMonth (y - 1) 11), (y, m, d))
      \<in> measure (\<lambda>(y, m, d). if d < 1 then nat (1 - d) + 32 else nat d)"
    by (auto simp: daysInMonth_def)
next
  fix y m d :: int
  assume "d < 1" "m \<noteq> 0"
  then show "((y, m - 1, d + daysInMonth y (m - 1)), (y, m, d))
      \<in> measure (\<lambda>(y, m, d). if d < 1 then nat (1 - d) + 32 else nat d)"
    by (auto simp: daysInMonth_def)
next
  fix y m d :: int
  assume "\<not> d < 1" "daysInMonth y m < d" "m = 11"
  then show "((y + 1, 0, d - daysInMonth y m), (y, m, d))
      \<in> measure (\<lambda>(y, m, d). if d < 1 then nat (1 - d) + 32 else nat d)"
    by (auto simp: daysInMonth_def)
next
  fix y m d :: int
  assume "\<not> d < 1" "daysInMonth y m < d" "m \<noteq> 11"
  then show "((y, m + 1, d - daysInMonth y m), (y, m, d))
      \<in> measure (\<lambda>(y, m, d). if d < 1 then nat (1 - d) + 32 else nat d)"
    by (auto simp: daysInMonth_def)
qed

declare normDay.simps [simp del]

text \<open>
  \<^verbatim>\<open>new Date(year, monthIndex, day)\<close>: a year from 0 to 99 is read as 1900 + year; the
  month index is carried into the year, then the day is normalised; the time of day is
  midnight.
\<close>

definition newDate :: "int \<Rightarrow> int \<Rightarrow> int \<Rightarrow> jsdate" where
  "newDate y m d =
     (let fullYear = (if 0 \<le> y \<and> y \<le> 99 then 1900 + y else y)
      in case normDay (fullYear + m div 12) (m mod 12) d of
           (y', m', d') \<Rightarrow>
             \<lparr>getFullYear = y', getMonth = m', getDate = d', msOfDay = 0\<rparr>)"

text \<open>\<^verbatim>\<open>date.setDate(d)\<close>: the day of the month is replaced and normalised; the time of
  day is kept.\<close>

definition setDate :: "jsdate \<Rightarrow> int \<Rightarrow> jsdate" where
  "setDate dt d =
     (case normDay (getFullYear dt) (getMonth dt) d of
        (y', m', d') \<Rightarrow> dt\<lparr>getFullYear := y', getMonth := m', getDate := d'\<rparr>)"

text \<open>\<^verbatim>\<open>date.setHours(h, min, s, ms)\<close>, for arguments inside their ranges (the source
  calls it with 6, 0, 0, 0 only).\<close>

definition setHours :: "jsdate \<Rightarrow> int \<Rightarrow> int \<Rightarrow> int \<Rightarrow> int \<Rightarrow> jsdate" where
  "setHours dt h mi s ms = dt\<lparr>msOfDay := ((h * 60 + mi) * 60 + s) * 1000 + ms\<rparr>"

text \<open>
  \<^verbatim>\<open>date.toDateString()\<close> prints weekday, month name, day and year. The weekday follows
  from the other three, so two valid dates print the same string exactly when they agree
  on year, month and day; the string is modelled by that triple.
\<close>

type_synonym datestr = "int \<times> int \<times> int"

definition toDateString :: "jsdate \<Rightarrow> datestr" where
  "toDateString d = (getFullYear d, getMonth d, getDate d)"

text \<open>
  A \<^verbatim>\<open>Date\<close> object holds a time value, the milliseconds since 1 January 1970 UTC, which
  \<^verbatim>\<open>getTime()\<close> returns and by which two dates are compared and subtracted. The time
  zone of the host turns a time value into local fields and local fields into a time
  value; its rule, daylight saving included, is a parameter of the model.
\<close>

record host =
  toLocal :: "int \<Rightarrow> jsdate"
  toUTC :: "jsdate \<Rightarrow> int"

text \<open>\<^verbatim>\<open>setHours\<close> and \<^verbatim>\<open>setDate\<close> on a time value: the local fields are changed and the
  host turns the result into a time value again.\<close>

definition setHoursAt :: "host \<Rightarrow> int \<Rightarrow> int \<Rightarrow> int \<Rightarrow> int \<Rightarrow> int \<Rightarrow> int" where
  "setHoursAt h t hh mi s ms = toUTC h (setHours (toLocal h t) hh mi s ms)"

definition setDateAt :: "host \<Rightarrow> int \<Rightarrow> int \<Rightarrow> int" where
  "setDateAt h t d = toUTC h (setDate (toLocal h t) d)"

text \<open>
  The zone UTC itself, from which the example hosts below are made: the time value of
  fields is the number of days since 1 January 1970 (the day count of the language
  standard) times the length of a day, plus the time of day; the fields of a time value
  are found by normalising its day number as a day of January 1970.
\<close>

definition dayFromYear :: "int \<Rightarrow> int" where
  "dayFromYear y =
     365 * (y - 1970) + (y - 1969) div 4 - (y - 1901) div 100 + (y - 1601) div 400"

fun daysBeforeMonth :: "int \<Rightarrow> nat \<Rightarrow> int" where
  "daysBeforeMonth y 0 = 0"
| "daysBeforeMonth y (Suc m) = daysBeforeMonth y m + daysInMonth y (int m)"

definition dayNumber :: "jsdate \<Rightarrow> int" where
  "dayNumber d =
     dayFromYear (getFullYear d) + daysBeforeMonth (getFullYear d) (nat (getMonth d))
       + (getDate d - 1)"

definition utcFields :: "jsdate \<Rightarrow> int" where
  "utcFields d = dayNumber d * 86400000 + msOfDay d"

definition fieldsOfUTC :: "int \<Rightarrow> jsdate" where
  "fieldsOfUTC t =
     (case normDay 1970 0 (t div 86400000 + 1) of
        (y, m, d) \<Rightarrow>
          \<lparr>getFullYear = y, getMonth = m, getDate = d, msOfDay = t mod 86400000\<rparr>)"

section \<open>The data model (types.ts)\<close>

text \<open>
  \<^verbatim>\<open>RecurringPayment\<close>. The field \<^verbatim>\<open>id\<close> is \<open>p_id\<close> here. \<^verbatim>\<open>lastPaidDate\<close> is an optional
  ISO string that the source only ever reads as \<^verbatim>\<open>p.lastPaidDate && new Date(p.lastPaidDate)\<close>;
  the field holds the local date that string parses to, and \<open>None\<close> when the field is
  undefined, empty or not a date (in all three cases the source's conjunction is falsy).
  \<^verbatim>\<open>dueDay\<close> is a whole number (1-31 by the comment of the interface, which nothing
  enforces); \<^verbatim>\<open>amount\<close>, which no decision below reads, is kept as a whole number too.
\<close>

record RecurringPayment =
  p_id :: string
  serviceName :: string
  amount :: int
  dueDay :: int
  lastPaidDate :: "jsdate option"

datatype log_status = L_success | L_failed

text \<open>
  \<^verbatim>\<open>EmailLog\<close>. \<^verbatim>\<open>paymentId\<close> is optional. \<^verbatim>\<open>sentAt\<close> is the local date its ISO string
  parses to, \<open>None\<close> for a string that is not a date (\<^verbatim>\<open>toDateString\<close> then prints
  \<^verbatim>\<open>Invalid Date\<close>, which is no day's string).
\<close>

record EmailLog =
  log_id :: string
  paymentId :: "string option"
  log_serviceName :: string
  log_amount :: int
  sentAt :: "jsdate option"
  status :: log_status

datatype email_status =
  S_idle | S_sending | S_sent | S_error | S_already_sent | S_missing_config

datatype send_result = R_success | R_error | R_missing_config

section \<open>Actionable payments (usePayments)\<close>

definition isPaidThisMonth :: "int \<Rightarrow> int \<Rightarrow> RecurringPayment \<Rightarrow> bool" where
  "isPaidThisMonth currentMonth currentYear p =
     (case lastPaidDate p of
        None \<Rightarrow> False
      | Some paid \<Rightarrow> getMonth paid = currentMonth \<and> getFullYear paid = currentYear)"

definition isToday :: "int \<Rightarrow> RecurringPayment \<Rightarrow> bool" where
  "isToday currentDay p = (dueDay p = currentDay)"

definition isTomorrow :: "int \<Rightarrow> int \<Rightarrow> RecurringPayment \<Rightarrow> bool" where
  "isTomorrow tomorrowDay daysInTomorrowMonth p =
     (dueDay p = tomorrowDay \<or>
      (tomorrowDay = daysInTomorrowMonth \<and> dueDay p > daysInTomorrowMonth))"

definition isOverdue :: "int \<Rightarrow> RecurringPayment \<Rightarrow> bool" where
  "isOverdue currentDay p = (dueDay p < currentDay)"

text \<open>The body of the filter callback, the same in \<^verbatim>\<open>duePayments\<close> and in
  \<^verbatim>\<open>checkAndSendEmails\<close>.\<close>

definition isActionable ::
  "int \<Rightarrow> int \<Rightarrow> int \<Rightarrow> int \<Rightarrow> int \<Rightarrow> RecurringPayment \<Rightarrow> bool" where
  "isActionable currentDay currentMonth currentYear tomorrowDay daysInTomorrowMonth p =
     (if isPaidThisMonth currentMonth currentYear p then False
      else isToday currentDay p \<or> isTomorrow tomorrowDay daysInTomorrowMonth p
           \<or> isOverdue currentDay p)"

text \<open>
  \<^verbatim>\<open>duePayments\<close> reads the clock twice: \<open>today\<close> is the first \<^verbatim>\<open>new Date()\<close> and
  \<open>tomorrow0\<close> the second one, on which \<^verbatim>\<open>setDate(today.getDate() + 1)\<close> is called.
\<close>

definition duePayments ::
  "jsdate \<Rightarrow> jsdate \<Rightarrow> RecurringPayment list \<Rightarrow> RecurringPayment list" where
  "duePayments today tomorrow0 payments =
     (let currentDay = getDate today;
          currentMonth = getMonth today;
          currentYear = getFullYear today;
          tomorrow = setDate tomorrow0 (getDate today + 1);
          tomorrowDay = getDate tomorrow;
          tomorrowMonth = getMonth tomorrow;
          tomorrowYear = getFullYear tomorrow;
          daysInTomorrowMonth = getDate (newDate tomorrowYear (tomorrowMonth + 1) 0)
      in filter (isActionable currentDay currentMonth currentYear
                   tomorrowDay daysInTomorrowMonth) payments)"

text \<open>The same computation at the head of \<^verbatim>\<open>checkAndSendEmails\<close>, where tomorrow is
  made from a copy of \<open>now\<close>.\<close>

definition actionablePayments :: "jsdate \<Rightarrow> RecurringPayment list \<Rightarrow> RecurringPayment list" where
  "actionablePayments now payments =
     (let currentDay = getDate now;
          currentMonth = getMonth now;
          currentYear = getFullYear now;
          tomorrow = setDate now (currentDay + 1);
          tomorrowDay = getDate tomorrow;
          tomorrowMonth = getMonth tomorrow;
          tomorrowYear = getFullYear tomorrow;
          daysInTomorrowMonth = getDate (newDate tomorrowYear (tomorrowMonth + 1) 0)
      in filter (isActionable currentDay currentMonth currentYear
                   tomorrowDay daysInTomorrowMonth) payments)"

text \<open>The flags of one payment at \<open>now\<close>, with the arguments \<^verbatim>\<open>checkAndSendEmails\<close>
  computes for them.\<close>

definition tomorrowOf :: "jsdate \<Rightarrow> jsdate" where
  "tomorrowOf now = setDate now (getDate now + 1)"

definition daysInTomorrowMonthOf :: "jsdate \<Rightarrow> int" where
  "daysInTomorrowMonthOf now =
     getDate (newDate (getFullYear (tomorrowOf now)) (getMonth (tomorrowOf now) + 1) 0)"

definition settledAt :: "jsdate \<Rightarrow> RecurringPayment \<Rightarrow> bool" where
  "settledAt now p = isPaidThisMonth (getMonth now) (getFullYear now) p"

definition dueTomorrowAt :: "jsdate \<Rightarrow> RecurringPayment \<Rightarrow> bool" where
  "dueTomorrowAt now p = isTomorrow (getDate (tomorrowOf now)) (daysInTomorrowMonthOf now) p"

definition overdueAt :: "jsdate \<Rightarrow> RecurringPayment \<Rightarrow> bool" where
  "overdueAt now p = isOverdue (getDate now) p"

text \<open>The calendar in the specification's words: the day after a valid date, rolling
  into the next month and year.\<close>

definition spec_tomorrow :: "jsdate \<Rightarrow> jsdate" where
  "spec_tomorrow now =
     (if getDate now < daysInMonth (getFullYear now) (getMonth now)
      then now\<lparr>getDate := getDate now + 1\<rparr>
      else if getMonth now < 11
      then now\<lparr>getMonth := getMonth now + 1, getDate := 1\<rparr>
      else now\<lparr>getFullYear := getFullYear now + 1, getMonth := 0, getDate := 1\<rparr>)"

text \<open>The specification's \<open>dueTomorrow\<close> rule.\<close>

definition spec_dueTomorrow :: "jsdate \<Rightarrow> RecurringPayment \<Rightarrow> bool" where
  "spec_dueTomorrow now p =
     (let tomorrow = spec_tomorrow now;
          n = daysInMonth (getFullYear tomorrow) (getMonth tomorrow)
      in dueDay p = getDate tomorrow \<or> (getDate tomorrow = n \<and> dueDay p > n))"

section \<open>The notifier (sendPaymentReminderEmail)\<close>

text \<open>
  \<^verbatim>\<open>sendPaymentReminderEmail\<close> first checks the three EmailJS credentials, then hands the
  message to \<^verbatim>\<open>emailjs.send\<close> and answers \<^verbatim>\<open>success\<close> when that promise resolves and
  \<^verbatim>\<open>error\<close> when it rejects. The credentials are constants of the module that its header
  asks to be replaced, so they are a parameter here; the outcome of the network call is a
  parameter as well (\<open>True\<close> when the promise resolves).
\<close>

record credentials =
  SERVICE_ID :: string
  TEMPLATE_ID :: string
  PUBLIC_KEY :: string

definition startsWith :: "string \<Rightarrow> string \<Rightarrow> bool" where
  "startsWith s pre = (take (length pre) s = pre)"

definition sendPaymentReminderEmail :: "credentials \<Rightarrow> bool \<Rightarrow> send_result" where
  "sendPaymentReminderEmail c delivered =
     (if SERVICE_ID c = [] \<or> startsWith (SERVICE_ID c) ''YOUR_'' \<or>
         TEMPLATE_ID c = [] \<or> startsWith (TEMPLATE_ID c) ''YOUR_'' \<or>
         PUBLIC_KEY c = [] \<or> startsWith (PUBLIC_KEY c) ''YOUR_''
      then R_missing_config
      else if delivered then R_success else R_error)"

section \<open>The dispatch run (checkAndSendEmails)\<close>

text \<open>
  What one run reads from outside the hook, indexed by the position \<open>k\<close> of the item in
  \<^verbatim>\<open>paymentsToSend\<close>: the answer of the notifier to the \<open>k\<close>-th call, the clock when the
  \<open>k\<close>-th log entry is made (\<^verbatim>\<open>new Date().toISOString()\<close>), and the random id of that entry.
\<close>

record world =
  notify :: "nat \<Rightarrow> RecurringPayment \<Rightarrow> string \<Rightarrow> send_result"
  clock :: "nat \<Rightarrow> jsdate"
  random_id :: "nat \<Rightarrow> string"

text \<open>What a run does to the outside, in order: a call of the notifier for a payment and a
  recipient, and a wait of so many milliseconds.\<close>

datatype effect = Notify RecurringPayment string | Wait nat

text \<open>
  The state the hook keeps: the React state \<^verbatim>\<open>emailStatus\<close>, \<^verbatim>\<open>emailLogs\<close> and
  \<^verbatim>\<open>lastSentTo\<close>, the two \<^verbatim>\<open>localStorage\<close> keys \<^verbatim>\<open>lastEmailSentDate\<close> and
  \<^verbatim>\<open>lastEmailSentTo\<close> (\<open>None\<close> when the key is not stored), and the flag
  \<^verbatim>\<open>isSendingRef\<close>.
\<close>

record hook_state =
  emailStatus :: email_status
  emailLogs :: "EmailLog list"
  lastSentTo :: string
  lastEmailSentDate :: "datestr option"
  lastEmailSentTo :: "string option"
  isSendingRef :: bool

text \<open>The local variables of the send loop, with the log list it prepends to and the
  effects performed so far.\<close>

record loop_state =
  hasErrors :: bool
  missingConfig :: bool
  sentCount :: nat
  logs :: "EmailLog list"
  done_effects :: "effect list"

text \<open>The log entry the loop builds for the \<open>k\<close>-th item and the notifier's answer.\<close>

definition logFor :: "world \<Rightarrow> nat \<Rightarrow> RecurringPayment \<Rightarrow> send_result \<Rightarrow> EmailLog" where
  "logFor w k payment result =
     \<lparr>log_id = random_id w k,
      paymentId = Some (p_id payment),
      log_serviceName = serviceName payment,
      log_amount = amount payment,
      sentAt = Some (clock w k),
      status = (if result = R_success then L_success else L_failed)\<rparr>"

text \<open>
  The \<^verbatim>\<open>for ... of paymentsToSend\<close> loop: \<open>toSend\<close> is the whole of \<^verbatim>\<open>paymentsToSend\<close>
  (the loop reads its length), \<open>k\<close> is the position of the next item and the last list
  argument holds the items still to visit. \<^verbatim>\<open>break\<close> ends the recursion.
\<close>

fun sendLoop ::
  "world \<Rightarrow> string \<Rightarrow> RecurringPayment list \<Rightarrow> nat \<Rightarrow> RecurringPayment list
     \<Rightarrow> loop_state \<Rightarrow> loop_state" where
  "sendLoop w recipientEmail toSend k [] ls = ls"
| "sendLoop w recipientEmail toSend k (payment # rest) ls =
     (let result = notify w k payment recipientEmail;
          ls1 = ls\<lparr>done_effects := done_effects ls @ [Notify payment recipientEmail]\<rparr>
      in if result = R_missing_config then ls1\<lparr>missingConfig := True\<rparr>
         else
           let log = logFor w k payment result;
               ls2 = ls1\<lparr>logs := log # logs ls1\<rparr>;
               ls3 = (if result = R_success then ls2\<lparr>sentCount := sentCount ls2 + 1\<rparr>
                      else ls2);
               ls4 = (if result = R_error then ls3\<lparr>hasErrors := True\<rparr> else ls3);
               ls5 = (if length toSend > 1
                      then ls4\<lparr>done_effects := done_effects ls4 @ [Wait 2500]\<rparr>
                      else ls4)
           in sendLoop w recipientEmail toSend (Suc k) rest ls5)"

text \<open>
  One log entry of \<^verbatim>\<open>emailLogs.forEach\<close>: the id it adds to \<^verbatim>\<open>sentPaymentIds\<close>, if any.
  \<^verbatim>\<open>log.paymentId\<close> is tested for truthiness, which an absent id and the empty string
  both fail.
\<close>

definition sentIdOf :: "datestr \<Rightarrow> EmailLog \<Rightarrow> string option" where
  "sentIdOf todayStr log =
     (let logDate = map_option toDateString (sentAt log)
      in if logDate = Some todayStr \<and> status log = L_success \<and>
            paymentId log \<noteq> None \<and> paymentId log \<noteq> Some []
         then paymentId log else None)"

definition sentPaymentIds :: "bool \<Rightarrow> datestr \<Rightarrow> EmailLog list \<Rightarrow> string set" where
  "sentPaymentIds emailChanged todayStr storedLogs =
     (if \<not> emailChanged then set (List.map_filter (sentIdOf todayStr) storedLogs) else {})"

definition paymentsToSend ::
  "jsdate \<Rightarrow> string \<Rightarrow> hook_state \<Rightarrow> RecurringPayment list \<Rightarrow> RecurringPayment list" where
  "paymentsToSend now recipientEmail st payments =
     (let actionable = actionablePayments now payments;
          todayStr = toDateString now;
          lastSentToStored = lastEmailSentTo st;
          emailChanged = (lastSentToStored \<noteq> Some recipientEmail);
          ids = sentPaymentIds emailChanged todayStr (emailLogs st)
      in filter (\<lambda>p. p_id p \<notin> ids) actionable)"

definition runLoop ::
  "world \<Rightarrow> string \<Rightarrow> RecurringPayment list \<Rightarrow> hook_state \<Rightarrow> loop_state" where
  "runLoop w recipientEmail toSend st =
     sendLoop w recipientEmail toSend 0 toSend
       \<lparr>hasErrors = False, missingConfig = False, sentCount = 0,
        logs = emailLogs st, done_effects = []\<rparr>"

text \<open>
  One call of \<^verbatim>\<open>checkAndSendEmails\<close>: the state it leaves and the effects it performed.
  \<^verbatim>\<open>initEmailService\<close>, which only hands the public key to the EmailJS library, is left
  out.
\<close>

definition checkAndSendEmails ::
  "world \<Rightarrow> RecurringPayment list \<Rightarrow> string \<Rightarrow> jsdate \<Rightarrow> hook_state
     \<Rightarrow> hook_state \<times> effect list" where
  "checkAndSendEmails w payments recipientEmail now st =
     (if isSendingRef st then (st, [])
      else if actionablePayments now payments = [] then
        (if emailStatus st = S_error \<or> emailStatus st = S_missing_config
         then (st\<lparr>emailStatus := S_idle\<rparr>, []) else (st, []))
      else
        let todayStr = toDateString now;
            toSend = paymentsToSend now recipientEmail st payments
        in if toSend = [] then
             (if emailStatus st \<noteq> S_sent \<and> emailStatus st \<noteq> S_already_sent
              then (st\<lparr>emailStatus := S_already_sent\<rparr>, []) else (st, []))
           else
             let ls = runLoop w recipientEmail toSend st;
                 st1 = st\<lparr>emailStatus := S_sending, emailLogs := logs ls,
                          isSendingRef := False\<rparr>
             in if missingConfig ls then
                  (st1\<lparr>emailStatus := S_missing_config\<rparr>, done_effects ls)
                else if sentCount ls > 0 \<and> \<not> hasErrors ls then
                  (st1\<lparr>lastEmailSentDate := Some todayStr,
                       lastEmailSentTo := Some recipientEmail,
                       lastSentTo := recipientEmail,
                       emailStatus := S_sent\<rparr>, done_effects ls)
                else if hasErrors ls then (st1\<lparr>emailStatus := S_error\<rparr>, done_effects ls)
                else (st1, done_effects ls))"

section \<open>The scheduler (the effect around checkAndSendEmails)\<close>

text \<open>What one evaluation of the effect does: it calls the check at once, or arms one
  \<^verbatim>\<open>setTimeout\<close> of so many milliseconds whose callback calls the check.\<close>

datatype schedule = CheckNow | CheckAfter int

text \<open>\<open>now\<close>, \<open>targetTime\<close> and \<open>tomorrowSixAm\<close> are the time values of the three
  \<^verbatim>\<open>Date\<close> objects of the source.\<close>

definition scheduleCheck :: "host \<Rightarrow> int \<Rightarrow> datestr option \<Rightarrow> schedule" where
  "scheduleCheck h now lastSentDate =
     (let todayStr = toDateString (toLocal h now);
          targetTime = setHoursAt h now 6 0 0 0
      in if lastSentDate = Some todayStr then
           (let tomorrowSixAm =
                  setDateAt h targetTime (getDate (toLocal h targetTime) + 1);
                msUntilTomorrow = tomorrowSixAm - now
            in CheckAfter msUntilTomorrow)
         else if now \<ge> targetTime then CheckNow
         else (let msUntilSix = targetTime - now
               in CheckAfter msUntilSix))"

text \<open>The local fields of six o'clock in the morning of the day of \<open>d\<close>.\<close>

definition sixAm :: "jsdate \<Rightarrow> jsdate" where
  "sixAm d = d\<lparr>msOfDay := 21600000\<rparr>"

section \<open>Example inputs\<close>

definition april29 :: jsdate where
  "april29 = \<lparr>getFullYear = 2025, getMonth = 3, getDate = 29, msOfDay = 32400000\<rparr>"

definition april30 :: jsdate where
  "april30 = \<lparr>getFullYear = 2025, getMonth = 3, getDate = 30, msOfDay = 32400000\<rparr>"

definition jan31 :: jsdate where
  "jan31 = \<lparr>getFullYear = 2026, getMonth = 0, getDate = 31, msOfDay = 32400000\<rparr>"

definition march3 :: jsdate where
  "march3 = \<lparr>getFullYear = 2025, getMonth = 2, getDate = 3, msOfDay = 32400000\<rparr>"

text \<open>
  A host on the east coast of North America around the change to daylight saving of
  9 March 2025: five hours behind UTC before 02:00 local time of that day (07:00 UTC),
  four hours behind from then on. \<open>march8_9am\<close> and \<open>march8_2am\<close> are the time values
  of 09:00 and 02:00 local time of 8 March 2025.
\<close>

definition eastern :: host where
  "eastern =
     \<lparr>toLocal = (\<lambda>t. fieldsOfUTC (t - (if t < 1741503600000 then 18000000 else 14400000))),
      toUTC = (\<lambda>d. utcFields d + (if utcFields d < 1741485600000 then 18000000 else 14400000))\<rparr>"

definition march8_9am :: int where
  "march8_9am = 1741442400000"

definition march8_2am :: int where
  "march8_2am = 1741417200000"

definition rent31 :: RecurringPayment where
  "rent31 = \<lparr>p_id = ''pay-1'', serviceName = ''Rent'', amount = 12000, dueDay = 31,
             lastPaidDate = None\<rparr>"

definition loan28 :: RecurringPayment where
  "loan28 = \<lparr>p_id = ''pay-2'', serviceName = ''Loan'', amount = 5000, dueDay = 28,
             lastPaidDate = None\<rparr>"

definition netflix5_paid :: RecurringPayment where
  "netflix5_paid = \<lparr>p_id = ''pay-3'', serviceName = ''Netflix'', amount = 649, dueDay = 3,
     lastPaidDate = Some \<lparr>getFullYear = 2025, getMonth = 2, getDate = 1, msOfDay = 0\<rparr>\<rparr>"

definition gym1 :: RecurringPayment where
  "gym1 = \<lparr>p_id = ''pay-4'', serviceName = ''Gym'', amount = 1500, dueDay = 1,
           lastPaidDate = None\<rparr>"

definition power3 :: RecurringPayment where
  "power3 = \<lparr>p_id = ''pay-5'', serviceName = ''Power'', amount = 900, dueDay = 3,
             lastPaidDate = None\<rparr>"

definition water4 :: RecurringPayment where
  "water4 = \<lparr>p_id = ''pay-6'', serviceName = ''Water'', amount = 300, dueDay = 4,
             lastPaidDate = None\<rparr>"

definition me :: string where
  "me = ''me@example.org''"

definition always :: "send_result \<Rightarrow> world" where
  "always res =
     \<lparr>notify = (\<lambda>k p r. res), clock = (\<lambda>k. march3), random_id = (\<lambda>k. ''k3j9x0a1b'')\<rparr>"

definition second_answers :: "send_result \<Rightarrow> world" where
  "second_answers res =
     \<lparr>notify = (\<lambda>k p r. if k = 0 then R_success else res), clock = (\<lambda>k. march3),
      random_id = (\<lambda>k. ''k3j9x0a1b'')\<rparr>"

definition placeholders :: credentials where
  "placeholders = \<lparr>SERVICE_ID = ''YOUR_SERVICE_ID'', TEMPLATE_ID = ''YOUR_TEMPLATE_ID'',
                   PUBLIC_KEY = ''YOUR_PUBLIC_KEY''\<rparr>"

definition emailjs_with :: "credentials \<Rightarrow> world" where
  "emailjs_with c =
     \<lparr>notify = (\<lambda>k p r. sendPaymentReminderEmail c True), clock = (\<lambda>k. march3),
      random_id = (\<lambda>k. ''k3j9x0a1b'')\<rparr>"

definition fresh :: hook_state where
  "fresh = \<lparr>emailStatus = S_idle, emailLogs = [], lastSentTo = [], lastEmailSentDate = None,
            lastEmailSentTo = None, isSendingRef = False\<rparr>"

definition logged_today :: "string option \<Rightarrow> EmailLog" where
  "logged_today i = \<lparr>log_id = ''a1b2c3d4e'', paymentId = i, log_serviceName = ''Gym'',
                     log_amount = 1500, sentAt = Some march3, status = L_success\<rparr>"

definition after_log :: "EmailLog \<Rightarrow> hook_state" where
  "after_log l = \<lparr>emailStatus = S_error, emailLogs = [l], lastSentTo = me,
                  lastEmailSentDate = None, lastEmailSentTo = Some me, isSendingRef = False\<rparr>"


section \<open>The calendar\<close>

lemma daysInMonth_bounds: "28 \<le> daysInMonth y m \<and> daysInMonth y m \<le> 31"
  by (simp add: daysInMonth_def)

lemma normDay_in_range:
  "1 \<le> d \<Longrightarrow> d \<le> daysInMonth y m \<Longrightarrow> normDay y m d = (y, m, d)"
  by (subst normDay.simps) simp

lemma normDay_next:
  "d = daysInMonth y m + 1 \<Longrightarrow>
   normDay y m d = (if m = 11 then (y + 1, 0, 1) else (y, m + 1, 1))"
  using daysInMonth_bounds [of y m]
  by (subst normDay.simps) (simp add: normDay_in_range daysInMonth_def)

lemma normDay_zero:
  "normDay y m 0 =
     (if m = 0 then (y - 1, 11, daysInMonth (y - 1) 11) else (y, m - 1, daysInMonth y (m - 1)))"
  using daysInMonth_bounds [of y "m - 1"] daysInMonth_bounds [of "y - 1" 11]
  by (subst normDay.simps) (simp add: normDay_in_range)

lemma newDate_last_day:
  assumes "0 \<le> m" "m < 12" "100 \<le> y"
  shows "getDate (newDate y (m + 1) 0) = daysInMonth y m"
proof (cases "m = 11")
  case True
  with assms(3) show ?thesis by (simp add: newDate_def normDay_zero)
next
  case False
  with assms have "(m + 1) div 12 = 0" "(m + 1) mod 12 = m + 1" by auto
  with assms show ?thesis by (simp add: newDate_def normDay_zero)
qed

lemma tomorrowOf_spec:
  assumes "clock_date now"
  shows "tomorrowOf now = spec_tomorrow now"
proof (cases "getDate now < daysInMonth (getFullYear now) (getMonth now)")
  case True
  with assms show ?thesis
    by (simp add: tomorrowOf_def spec_tomorrow_def setDate_def clock_date_def normDay_in_range)
next
  case False
  with assms have "getDate now + 1 = daysInMonth (getFullYear now) (getMonth now) + 1"
    by (simp add: clock_date_def)
  with assms False show ?thesis
    by (auto simp add: tomorrowOf_def spec_tomorrow_def setDate_def clock_date_def normDay_next)
qed

lemma valid_spec_tomorrow:
  assumes "clock_date now"
  shows "clock_date (spec_tomorrow now)"
  using assms daysInMonth_bounds [of "getFullYear now" "getMonth now + 1"]
    daysInMonth_bounds [of "getFullYear now + 1" 0]
  by (auto simp add: clock_date_def spec_tomorrow_def)

lemma daysInTomorrowMonthOf_spec:
  assumes "clock_date now"
  shows "daysInTomorrowMonthOf now =
         daysInMonth (getFullYear (spec_tomorrow now)) (getMonth (spec_tomorrow now))"
proof -
  have "clock_date (spec_tomorrow now)" using assms by (rule valid_spec_tomorrow)
  then have "0 \<le> getMonth (spec_tomorrow now)" "getMonth (spec_tomorrow now) < 12"
    "100 \<le> getFullYear (spec_tomorrow now)"
    by (simp_all add: clock_date_def)
  then show ?thesis
    by (simp add: daysInTomorrowMonthOf_def tomorrowOf_spec [OF assms] newDate_last_day)
qed

lemma isActionable_flags:
  "isActionable (getDate now) (getMonth now) (getFullYear now)
     (getDate (tomorrowOf now)) (daysInTomorrowMonthOf now) p =
   (\<not> settledAt now p \<and>
    (isToday (getDate now) p \<or> dueTomorrowAt now p \<or> overdueAt now p))"
  by (simp add: isActionable_def settledAt_def dueTomorrowAt_def overdueAt_def)

lemma actionablePayments_flags:
  "actionablePayments now payments =
     filter (\<lambda>p. \<not> settledAt now p \<and>
                  (isToday (getDate now) p \<or> dueTomorrowAt now p \<or> overdueAt now p)) payments"
proof -
  have "actionablePayments now payments =
        filter (isActionable (getDate now) (getMonth now) (getFullYear now)
                  (getDate (tomorrowOf now)) (daysInTomorrowMonthOf now)) payments"
    by (simp add: actionablePayments_def Let_def tomorrowOf_def daysInTomorrowMonthOf_def)
  also have "\<dots> = filter (\<lambda>p. \<not> settledAt now p \<and>
                  (isToday (getDate now) p \<or> dueTomorrowAt now p \<or> overdueAt now p)) payments"
    by (rule filter_cong [OF refl]) (rule isActionable_flags)
  finally show ?thesis .
qed

lemma duePayments_one_read:
  "duePayments now now payments = actionablePayments now payments"
  by (simp add: duePayments_def actionablePayments_def Let_def)

lemma dueTomorrowAt_spec:
  assumes "clock_date now"
  shows "dueTomorrowAt now p = spec_dueTomorrow now p"
  by (simp add: dueTomorrowAt_def spec_dueTomorrow_def isTomorrow_def Let_def
      tomorrowOf_spec [OF assms] daysInTomorrowMonthOf_spec [OF assms])

lemma sixAm_setHours: "setHours now 6 0 0 0 = sixAm now"
  by (simp add: setHours_def sixAm_def)

lemma tomorrow_sixAm:
  assumes "clock_date now"
  shows "setDate (sixAm now) (getDate (sixAm now) + 1) = sixAm (spec_tomorrow now)"
proof -
  have v: "clock_date (sixAm now)" using assms by (simp add: clock_date_def sixAm_def)
  have "setDate (sixAm now) (getDate (sixAm now) + 1) = spec_tomorrow (sixAm now)"
    using tomorrowOf_spec [OF v] by (simp add: tomorrowOf_def)
  also have "\<dots> = sixAm (spec_tomorrow now)"
    by (simp add: spec_tomorrow_def sixAm_def)
  finally show ?thesis .
qed

lemma valid_april30: "clock_date april30"
  by (simp add: april30_def clock_date_def daysInMonth_def)

lemma valid_april29: "clock_date april29"
  by (simp add: april29_def clock_date_def daysInMonth_def)

lemma valid_march3: "clock_date march3"
  by (simp add: march3_def clock_date_def daysInMonth_def)

lemma rent31_unsettled: "\<not> settledAt now rent31"
  by (simp add: settledAt_def isPaidThisMonth_def rent31_def)

section \<open>Which payments are actionable\<close>

text \<open>
  Claim C1, as the specification states it: on the last day of a 30-day month an unsettled
  payment with due day 31 is included as due tomorrow. The code does not do that: on
  30 April 2025 tomorrow is 1 May, which is neither day 31 nor the last day of May, and
  the due day 31 is neither today's day 30 nor less than it, so the payment is not flagged
  due tomorrow and is not in the actionable list at all.
\<close>

theorem last_day_of_30_day_month_counterexample:
  "clock_date april30 \<and> daysInMonth (getFullYear april30) (getMonth april30) = 30 \<and>
   getDate april30 = 30 \<and> dueDay rent31 = 31 \<and> \<not> settledAt april30 rent31 \<and>
   \<not> dueTomorrowAt april30 rent31 \<and>
   rent31 \<notin> set (actionablePayments april30 [rent31]) \<and>
   rent31 \<notin> set (duePayments april30 april30 [rent31])"
proof -
  have t: "spec_tomorrow april30 =
           \<lparr>getFullYear = 2025, getMonth = 4, getDate = 1, msOfDay = 32400000\<rparr>"
    by (simp add: april30_def spec_tomorrow_def daysInMonth_def)
  have n: "\<not> dueTomorrowAt april30 rent31"
    by (simp add: dueTomorrowAt_spec [OF valid_april30] spec_dueTomorrow_def t rent31_def
        daysInMonth_def)
  have o: "\<not> isToday (getDate april30) rent31" "\<not> overdueAt april30 rent31"
    by (simp_all add: isToday_def overdueAt_def isOverdue_def rent31_def april30_def)
  have d: "daysInMonth (getFullYear april30) (getMonth april30) = 30" "getDate april30 = 30"
    "dueDay rent31 = 31"
    by (simp_all add: april30_def daysInMonth_def rent31_def)
  show ?thesis
    using valid_april30 rent31_unsettled n o d
    by (simp add: duePayments_one_read actionablePayments_flags)
qed

text \<open>
  Claim C1, amended: the month-boundary rule looks at tomorrow, so it fires on the day
  before the last day of a 30-day month (the 29th). For every valid \<open>now\<close> that is the
  29th of a 30-day month, every unsettled payment of the list with due day 31 is flagged
  due tomorrow and is in the actionable list, of \<^verbatim>\<open>checkAndSendEmails\<close> and of
  \<^verbatim>\<open>duePayments\<close> alike.
\<close>

theorem day_before_last_of_30_day_month:
  assumes "clock_date now"
    and "daysInMonth (getFullYear now) (getMonth now) = 30"
    and "getDate now = 29"
    and "dueDay p = 31"
    and "\<not> settledAt now p"
    and "p \<in> set payments"
  shows "dueTomorrowAt now p \<and> p \<in> set (actionablePayments now payments) \<and>
         p \<in> set (duePayments now now payments)"
proof -
  have "spec_tomorrow now = now\<lparr>getDate := 30\<rparr>"
    using assms(2,3) by (simp add: spec_tomorrow_def)
  then have "spec_dueTomorrow now p"
    using assms(2,4) by (simp add: spec_dueTomorrow_def)
  then have "dueTomorrowAt now p"
    by (simp add: dueTomorrowAt_spec [OF assms(1)])
  then show ?thesis
    using assms(5,6) by (simp add: duePayments_one_read actionablePayments_flags)
qed

theorem day_before_last_of_30_day_month_witness:
  "clock_date april29 \<and> daysInMonth (getFullYear april29) (getMonth april29) = 30 \<and>
   getDate april29 = 29 \<and> dueDay rent31 = 31 \<and> \<not> settledAt april29 rent31 \<and>
   rent31 \<in> set [rent31] \<and>
   dueTomorrowAt april29 rent31 \<and> rent31 \<in> set (actionablePayments april29 [rent31]) \<and>
   rent31 \<in> set (duePayments april29 april29 [rent31])"
proof -
  have d: "daysInMonth (getFullYear april29) (getMonth april29) = 30" "getDate april29 = 29"
    "dueDay rent31 = 31"
    by (simp_all add: april29_def daysInMonth_def rent31_def)
  have m: "rent31 \<in> set [rent31]" by simp
  show ?thesis
    using day_before_last_of_30_day_month
      [OF valid_april29 d(1) d(2) d(3) rent31_unsettled m]
      valid_april29 d rent31_unsettled
    by simp
qed

text \<open>
  Claim C6: for a payment not settled this month, the due-tomorrow flag the code computes
  (with \<^verbatim>\<open>setDate(day + 1)\<close> and \<^verbatim>\<open>new Date(year, month + 1, 0)\<close>) is the specification's
  rule over the calendar-correct tomorrow: the due day equals tomorrow's day of the month,
  or tomorrow is the last day of its month and the due day exceeds the number of days of
  that month. The flag enters the list \<^verbatim>\<open>duePayments\<close> returns as that rule.
\<close>

theorem dueTomorrow_refines_spec:
  assumes "clock_date now" and "\<not> settledAt now p"
  shows "dueTomorrowAt now p = spec_dueTomorrow now p \<and>
         (p \<in> set (duePayments now now payments) \<longleftrightarrow>
            p \<in> set payments \<and>
            (isToday (getDate now) p \<or> spec_dueTomorrow now p \<or> overdueAt now p))"
  using assms(2)
  by (auto simp add: duePayments_one_read actionablePayments_flags dueTomorrowAt_spec [OF assms(1)])

theorem dueTomorrow_refines_spec_witness:
  "clock_date jan31 \<and> \<not> settledAt jan31 gym1 \<and>
   spec_tomorrow jan31 = \<lparr>getFullYear = 2026, getMonth = 1, getDate = 1, msOfDay = 32400000\<rparr> \<and>
   dueTomorrowAt jan31 gym1 \<and> spec_dueTomorrow jan31 gym1 \<and>
   gym1 \<in> set (duePayments jan31 jan31 [gym1])"
proof -
  have v: "clock_date jan31"
    by (simp add: jan31_def clock_date_def daysInMonth_def)
  have s: "\<not> settledAt jan31 gym1"
    by (simp add: settledAt_def isPaidThisMonth_def gym1_def)
  have t: "spec_tomorrow jan31 =
           \<lparr>getFullYear = 2026, getMonth = 1, getDate = 1, msOfDay = 32400000\<rparr>"
    by (simp add: jan31_def spec_tomorrow_def daysInMonth_def)
  have d: "spec_dueTomorrow jan31 gym1"
    by (simp add: spec_dueTomorrow_def t gym1_def)
  show ?thesis
    using dueTomorrow_refines_spec [OF v s, of "[gym1]"] v s t d by simp
qed

text \<open>
  Claim C7: for a payment not settled this month the overdue flag is the plain comparison
  of the due day with today's day of the month, and the payment is actionable exactly when
  it is due today, due tomorrow or smaller than today's day in that comparison. So an
  unsettled payment with due day 28, looked at on day 3 of a month, is neither overdue nor
  in the actionable list.
\<close>

theorem overdue_is_plain_comparison:
  assumes "clock_date now" and "\<not> settledAt now p"
  shows "(overdueAt now p \<longleftrightarrow> dueDay p < getDate now) \<and>
         (p \<in> set (actionablePayments now payments) \<longleftrightarrow>
            p \<in> set payments \<and>
            (dueDay p = getDate now \<or> spec_dueTomorrow now p \<or> dueDay p < getDate now)) \<and>
         (p \<in> set (duePayments now now payments) \<longleftrightarrow>
            p \<in> set (actionablePayments now payments)) \<and>
         (getDate now = 3 \<and> dueDay p = 28 \<longrightarrow>
            \<not> overdueAt now p \<and> p \<notin> set (actionablePayments now payments))"
proof -
  have o: "overdueAt now p \<longleftrightarrow> dueDay p < getDate now"
    by (simp add: overdueAt_def isOverdue_def)
  have m: "p \<in> set (actionablePayments now payments) \<longleftrightarrow>
            p \<in> set payments \<and>
            (dueDay p = getDate now \<or> spec_dueTomorrow now p \<or> dueDay p < getDate now)"
    using assms(2)
    by (auto simp add: actionablePayments_flags dueTomorrowAt_spec [OF assms(1)] o isToday_def)
  have x: "\<not> spec_dueTomorrow now p" if "getDate now = 3" "dueDay p = 28"
  proof -
    have "spec_tomorrow now = now\<lparr>getDate := 4\<rparr>"
      using that daysInMonth_bounds [of "getFullYear now" "getMonth now"]
      by (simp add: spec_tomorrow_def)
    then show ?thesis
      using that daysInMonth_bounds [of "getFullYear now" "getMonth now"]
      by (simp add: spec_dueTomorrow_def)
  qed
  show ?thesis
    using o m x by (auto simp add: duePayments_one_read)
qed

theorem overdue_is_plain_comparison_witness:
  "clock_date march3 \<and> \<not> settledAt march3 loan28 \<and> getDate march3 = 3 \<and>
   dueDay loan28 = 28 \<and> \<not> overdueAt march3 loan28 \<and>
   loan28 \<notin> set (actionablePayments march3 [loan28]) \<and>
   loan28 \<notin> set (duePayments march3 march3 [loan28])"
proof -
  have v: "clock_date march3"
    by (simp add: march3_def clock_date_def daysInMonth_def)
  have s: "\<not> settledAt march3 loan28"
    by (simp add: settledAt_def isPaidThisMonth_def loan28_def)
  have d: "getDate march3 = 3" "dueDay loan28 = 28"
    by (simp_all add: march3_def loan28_def)
  show ?thesis
    using overdue_is_plain_comparison [OF v s, of "[loan28]"] v s d by auto
qed

text \<open>
  Claim C8: a payment whose \<^verbatim>\<open>lastPaidDate\<close> is present and lies in the calendar month and
  year of \<open>now\<close> is in neither actionable list, whatever its due day.
\<close>

theorem settled_this_month_excluded:
  assumes "lastPaidDate p = Some paid"
    and "getMonth paid = getMonth now"
    and "getFullYear paid = getFullYear now"
  shows "p \<notin> set (actionablePayments now payments) \<and>
         p \<notin> set (duePayments now tomorrow0 payments)"
  using assms
  by (simp add: actionablePayments_def duePayments_def Let_def isActionable_def
      isPaidThisMonth_def)

theorem settled_this_month_excluded_witness:
  "lastPaidDate netflix5_paid =
     Some \<lparr>getFullYear = 2025, getMonth = 2, getDate = 1, msOfDay = 0\<rparr> \<and>
   getMonth \<lparr>getFullYear = 2025, getMonth = 2, getDate = 1, msOfDay = 0\<rparr> = getMonth march3 \<and>
   getFullYear \<lparr>getFullYear = 2025, getMonth = 2, getDate = 1, msOfDay = 0\<rparr>
     = getFullYear march3 \<and>
   dueDay netflix5_paid = getDate march3 \<and>
   netflix5_paid \<notin> set (actionablePayments march3 [netflix5_paid]) \<and>
   netflix5_paid \<notin> set (duePayments march3 march3 [netflix5_paid])"
proof -
  have a: "lastPaidDate netflix5_paid =
     Some \<lparr>getFullYear = 2025, getMonth = 2, getDate = 1, msOfDay = 0\<rparr>"
    by (simp add: netflix5_paid_def)
  have b: "getMonth \<lparr>getFullYear = 2025, getMonth = 2, getDate = 1, msOfDay = 0\<rparr>
            = getMonth march3"
    "getFullYear \<lparr>getFullYear = 2025, getMonth = 2, getDate = 1, msOfDay = 0\<rparr>
            = getFullYear march3"
    by (simp_all add: march3_def)
  have c: "dueDay netflix5_paid = getDate march3"
    by (simp add: netflix5_paid_def march3_def)
  show ?thesis
    using settled_this_month_excluded [OF a b, of "[netflix5_paid]" march3] a b c
    by simp
qed

section \<open>When the check runs\<close>

text \<open>
  Claim C9: at every evaluation of the scheduler, at a time value \<open>now\<close> whose local fields
  are a clock reading: if the stored last-dispatch date is today's, one timer is armed
  whose delay ends at tomorrow 06:00 local time, that is, at the time value the host
  gives to the local fields of the next calendar day at 06:00 (for a day on which 06:00
  exists in local time), and its callback is the check; otherwise, if \<open>now\<close> is at or past
  today 06:00, the check is called at once; and if \<open>now\<close> is before today 06:00, one timer
  is armed for the time left until then.
\<close>

theorem scheduler_decision:
  assumes "clock_date (toLocal h now)"
  shows "(lastSentDate = Some (toDateString (toLocal h now)) \<and>
          toLocal h (toUTC h (sixAm (toLocal h now))) = sixAm (toLocal h now) \<longrightarrow>
            scheduleCheck h now lastSentDate =
              CheckAfter (toUTC h (sixAm (spec_tomorrow (toLocal h now))) - now)) \<and>
         (lastSentDate \<noteq> Some (toDateString (toLocal h now)) \<and>
          toUTC h (sixAm (toLocal h now)) \<le> now \<longrightarrow>
            scheduleCheck h now lastSentDate = CheckNow) \<and>
         (lastSentDate \<noteq> Some (toDateString (toLocal h now)) \<and>
          now < toUTC h (sixAm (toLocal h now)) \<longrightarrow>
            scheduleCheck h now lastSentDate =
              CheckAfter (toUTC h (sixAm (toLocal h now)) - now))"
proof -
  have target: "setHoursAt h now 6 0 0 0 = toUTC h (sixAm (toLocal h now))"
    by (simp add: setHoursAt_def sixAm_setHours)
  have tomorrow: "setDateAt h (toUTC h (sixAm (toLocal h now)))
                    (getDate (toLocal h (toUTC h (sixAm (toLocal h now)))) + 1) =
                  toUTC h (sixAm (spec_tomorrow (toLocal h now)))"
    if "toLocal h (toUTC h (sixAm (toLocal h now))) = sixAm (toLocal h now)"
    using that tomorrow_sixAm [OF assms] by (simp add: setDateAt_def)
  show ?thesis
    using tomorrow by (auto simp add: scheduleCheck_def Let_def target)
qed

theorem scheduler_decision_witness:
  "clock_date (toLocal eastern march8_9am) \<and>
   toLocal eastern march8_9am =
     \<lparr>getFullYear = 2025, getMonth = 2, getDate = 8, msOfDay = 32400000\<rparr> \<and>
   toLocal eastern (toUTC eastern (sixAm (toLocal eastern march8_9am))) =
     sixAm (toLocal eastern march8_9am) \<and>
   scheduleCheck eastern march8_9am (Some (2025, 2, 8)) = CheckAfter 72000000 \<and>
   toUTC eastern (sixAm (toLocal eastern march8_9am)) \<le> march8_9am \<and>
   scheduleCheck eastern march8_9am None = CheckNow \<and>
   clock_date (toLocal eastern march8_2am) \<and>
   march8_2am < toUTC eastern (sixAm (toLocal eastern march8_2am)) \<and>
   scheduleCheck eastern march8_2am None = CheckAfter 14400000"
proof -
  have l9: "toLocal eastern march8_9am =
      \<lparr>getFullYear = 2025, getMonth = 2, getDate = 8, msOfDay = 32400000\<rparr>"
    by code_simp
  have l2: "toLocal eastern march8_2am =
      \<lparr>getFullYear = 2025, getMonth = 2, getDate = 8, msOfDay = 7200000\<rparr>"
    by code_simp
  have v9: "clock_date (toLocal eastern march8_9am)"
    by (simp add: l9 clock_date_def daysInMonth_def)
  have v2: "clock_date (toLocal eastern march8_2am)"
    by (simp add: l2 clock_date_def daysInMonth_def)
  have six: "toUTC eastern (sixAm (toLocal eastern march8_9am)) = 1741431600000"
    "toUTC eastern (sixAm (toLocal eastern march8_2am)) = 1741431600000"
    by code_simp+
  have same: "toLocal eastern (toUTC eastern (sixAm (toLocal eastern march8_9am))) =
      sixAm (toLocal eastern march8_9am)"
    by code_simp
  have next6: "toUTC eastern (sixAm (spec_tomorrow (toLocal eastern march8_9am))) =
      1741514400000"
    by code_simp
  have d: "toDateString (toLocal eastern march8_9am) = (2025, 2, 8)"
    by (simp add: l9 toDateString_def)
  have t: "march8_9am = 1741442400000" "march8_2am = 1741417200000"
    by (simp_all add: march8_9am_def march8_2am_def)
  show ?thesis
    using scheduler_decision [OF v9, of "Some (2025, 2, 8)"]
      scheduler_decision [OF v9, of None]
      scheduler_decision [OF v2, of None]
      v9 v2 l9 six same next6 d t
    by simp
qed

section \<open>The send loop\<close>

text \<open>
  The lemmas below describe the loop by the number \<open>n\<close> of items it logs: every answer
  before position \<open>n\<close> is a success or an error, and either \<open>n\<close> is the length of the list
  or the answer at position \<open>n\<close> is \<^verbatim>\<open>missing_config\<close>.
\<close>

lemma sendLoop_abort:
  "notify w k p r = R_missing_config \<Longrightarrow>
   sendLoop w r ts k (p # ps) ls =
     ls\<lparr>done_effects := done_effects ls @ [Notify p r], missingConfig := True\<rparr>"
  by (simp add: Let_def)

lemma sendLoop_logs:
  "n \<le> length rest \<Longrightarrow>
   \<forall>j<n. notify w (k + j) (rest ! j) r \<noteq> R_missing_config \<Longrightarrow>
   n < length rest \<longrightarrow> notify w (k + n) (rest ! n) r = R_missing_config \<Longrightarrow>
   logs (sendLoop w r ts k rest ls) =
     rev (map (\<lambda>j. logFor w (k + j) (rest ! j) (notify w (k + j) (rest ! j) r)) [0..<n])
       @ logs ls"
proof (induction rest arbitrary: k ls n)
  case Nil
  then show ?case by simp
next
  case (Cons p ps)
  show ?case
  proof (cases n)
    case 0
    with Cons.prems have "notify w k p r = R_missing_config" by simp
    with 0 show ?thesis by (simp add: sendLoop_abort)
  next
    case (Suc m)
    with Cons.prems have a: "notify w k p r \<noteq> R_missing_config" by auto
    have b: "m \<le> length ps" using Cons.prems(1) Suc by simp
    have c: "\<forall>j<m. notify w (Suc k + j) (ps ! j) r \<noteq> R_missing_config"
      using Cons.prems(2) Suc by auto
    have d: "m < length ps \<longrightarrow> notify w (Suc k + m) (ps ! m) r = R_missing_config"
      using Cons.prems(3) Suc by simp
    note IH = Cons.IH [OF b c d]
    show ?thesis
      using a by (simp add: Suc Let_def IH map_upt_Suc del: upt_Suc)
  qed
qed

lemma sendLoop_effects:
  "n \<le> length rest \<Longrightarrow>
   \<forall>j<n. notify w (k + j) (rest ! j) r \<noteq> R_missing_config \<Longrightarrow>
   n < length rest \<longrightarrow> notify w (k + n) (rest ! n) r = R_missing_config \<Longrightarrow>
   done_effects (sendLoop w r ts k rest ls) =
     done_effects ls
       @ concat (map (\<lambda>j. Notify (rest ! j) r # (if length ts > 1 then [Wait 2500] else []))
                   [0..<n])
       @ (if n < length rest then [Notify (rest ! n) r] else [])"
proof (induction rest arbitrary: k ls n)
  case Nil
  then show ?case by simp
next
  case (Cons p ps)
  show ?case
  proof (cases n)
    case 0
    with Cons.prems have "notify w k p r = R_missing_config" by simp
    with 0 show ?thesis by (simp add: sendLoop_abort)
  next
    case (Suc m)
    with Cons.prems have a: "notify w k p r \<noteq> R_missing_config" by auto
    have b: "m \<le> length ps" using Cons.prems(1) Suc by simp
    have c: "\<forall>j<m. notify w (Suc k + j) (ps ! j) r \<noteq> R_missing_config"
      using Cons.prems(2) Suc by auto
    have d: "m < length ps \<longrightarrow> notify w (Suc k + m) (ps ! m) r = R_missing_config"
      using Cons.prems(3) Suc by simp
    note IH = Cons.IH [OF b c d]
    show ?thesis
      using a by (simp add: Suc Let_def IH map_upt_Suc del: upt_Suc)
  qed
qed

lemma sendLoop_missingConfig:
  "n \<le> length rest \<Longrightarrow>
   \<forall>j<n. notify w (k + j) (rest ! j) r \<noteq> R_missing_config \<Longrightarrow>
   n < length rest \<longrightarrow> notify w (k + n) (rest ! n) r = R_missing_config \<Longrightarrow>
   missingConfig (sendLoop w r ts k rest ls) = (missingConfig ls \<or> n < length rest)"
proof (induction rest arbitrary: k ls n)
  case Nil
  then show ?case by simp
next
  case (Cons p ps)
  show ?case
  proof (cases n)
    case 0
    with Cons.prems have "notify w k p r = R_missing_config" by simp
    with 0 show ?thesis by (simp add: sendLoop_abort)
  next
    case (Suc m)
    with Cons.prems have a: "notify w k p r \<noteq> R_missing_config" by auto
    have b: "m \<le> length ps" using Cons.prems(1) Suc by simp
    have c: "\<forall>j<m. notify w (Suc k + j) (ps ! j) r \<noteq> R_missing_config"
      using Cons.prems(2) Suc by auto
    have d: "m < length ps \<longrightarrow> notify w (Suc k + m) (ps ! m) r = R_missing_config"
      using Cons.prems(3) Suc by simp
    note IH = Cons.IH [OF b c d]
    show ?thesis
      using a by (simp add: Suc Let_def IH )
  qed
qed

lemma sendLoop_hasErrors:
  "n \<le> length rest \<Longrightarrow>
   \<forall>j<n. notify w (k + j) (rest ! j) r \<noteq> R_missing_config \<Longrightarrow>
   n < length rest \<longrightarrow> notify w (k + n) (rest ! n) r = R_missing_config \<Longrightarrow>
   hasErrors (sendLoop w r ts k rest ls) =
     (hasErrors ls \<or> (\<exists>j<n. notify w (k + j) (rest ! j) r = R_error))"
proof (induction rest arbitrary: k ls n)
  case Nil
  then show ?case by simp
next
  case (Cons p ps)
  show ?case
  proof (cases n)
    case 0
    with Cons.prems have "notify w k p r = R_missing_config" by simp
    with 0 show ?thesis by (simp add: sendLoop_abort)
  next
    case (Suc m)
    with Cons.prems have a: "notify w k p r \<noteq> R_missing_config" by auto
    have b: "m \<le> length ps" using Cons.prems(1) Suc by simp
    have c: "\<forall>j<m. notify w (Suc k + j) (ps ! j) r \<noteq> R_missing_config"
      using Cons.prems(2) Suc by auto
    have d: "m < length ps \<longrightarrow> notify w (Suc k + m) (ps ! m) r = R_missing_config"
      using Cons.prems(3) Suc by simp
    note IH = Cons.IH [OF b c d]
    show ?thesis
      using a by (simp add: Suc Let_def IH Ex_less_Suc2)
  qed
qed

lemma sendLoop_sentCount:
  "n \<le> length rest \<Longrightarrow>
   \<forall>j<n. notify w (k + j) (rest ! j) r \<noteq> R_missing_config \<Longrightarrow>
   n < length rest \<longrightarrow> notify w (k + n) (rest ! n) r = R_missing_config \<Longrightarrow>
   (0 < sentCount (sendLoop w r ts k rest ls)) =
     (0 < sentCount ls \<or> (\<exists>j<n. notify w (k + j) (rest ! j) r = R_success))"
proof (induction rest arbitrary: k ls n)
  case Nil
  then show ?case by simp
next
  case (Cons p ps)
  show ?case
  proof (cases n)
    case 0
    with Cons.prems have "notify w k p r = R_missing_config" by simp
    with 0 show ?thesis by (simp add: sendLoop_abort)
  next
    case (Suc m)
    with Cons.prems have a: "notify w k p r \<noteq> R_missing_config" by auto
    have b: "m \<le> length ps" using Cons.prems(1) Suc by simp
    have c: "\<forall>j<m. notify w (Suc k + j) (ps ! j) r \<noteq> R_missing_config"
      using Cons.prems(2) Suc by auto
    have d: "m < length ps \<longrightarrow> notify w (Suc k + m) (ps ! m) r = R_missing_config"
      using Cons.prems(3) Suc by simp
    note IH = Cons.IH [OF b c d]
    show ?thesis
      using a by (simp add: Suc Let_def IH Ex_less_Suc2)
  qed
qed

lemma toSend_subset:
  "set (paymentsToSend now r st payments) \<subseteq> set (actionablePayments now payments)"
  by (auto simp add: paymentsToSend_def Let_def)

lemma toSend_nonempty:
  "paymentsToSend now r st payments \<noteq> [] \<Longrightarrow> actionablePayments now payments \<noteq> []"
  using toSend_subset [of now r st payments] by (cases "actionablePayments now payments") auto

lemma runLoop_fields:
  assumes "n \<le> length ts"
    and "\<forall>j<n. notify w j (ts ! j) r \<noteq> R_missing_config"
    and "n < length ts \<longrightarrow> notify w n (ts ! n) r = R_missing_config"
  shows "logs (runLoop w r ts st) =
           rev (map (\<lambda>j. logFor w j (ts ! j) (notify w j (ts ! j) r)) [0..<n]) @ emailLogs st"
    and "done_effects (runLoop w r ts st) =
           concat (map (\<lambda>j. Notify (ts ! j) r # (if length ts > 1 then [Wait 2500] else []))
                     [0..<n])
             @ (if n < length ts then [Notify (ts ! n) r] else [])"
    and "missingConfig (runLoop w r ts st) = (n < length ts)"
    and "hasErrors (runLoop w r ts st) = (\<exists>j<n. notify w j (ts ! j) r = R_error)"
    and "(0 < sentCount (runLoop w r ts st)) = (\<exists>j<n. notify w j (ts ! j) r = R_success)"
  using assms
    sendLoop_logs [of n ts w 0 r ts] sendLoop_effects [of n ts w 0 r ts]
    sendLoop_missingConfig [of n ts w 0 r] sendLoop_hasErrors [of n ts w 0 r]
    sendLoop_sentCount [of n ts w 0 r]
  by (simp_all add: runLoop_def)

lemma check_run:
  assumes "\<not> isSendingRef st" and "paymentsToSend now r st payments = ts" and "ts \<noteq> []"
  shows "checkAndSendEmails w payments r now st =
     (let ls = runLoop w r ts st;
          st1 = st\<lparr>emailStatus := S_sending, emailLogs := logs ls, isSendingRef := False\<rparr>
      in if missingConfig ls then (st1\<lparr>emailStatus := S_missing_config\<rparr>, done_effects ls)
         else if sentCount ls > 0 \<and> \<not> hasErrors ls then
           (st1\<lparr>lastEmailSentDate := Some (toDateString now),
                lastEmailSentTo := Some r,
                lastSentTo := r,
                emailStatus := S_sent\<rparr>, done_effects ls)
         else if hasErrors ls then (st1\<lparr>emailStatus := S_error\<rparr>, done_effects ls)
         else (st1, done_effects ls))"
proof -
  have "actionablePayments now payments \<noteq> []"
    using assms(2,3) toSend_nonempty by blast
  then show ?thesis
    using assms by (simp add: checkAndSendEmails_def Let_def)
qed


lemma sentIdOf_Some:
  "sentIdOf today l = Some i \<longleftrightarrow>
     map_option toDateString (sentAt l) = Some today \<and> status l = L_success \<and>
     paymentId l = Some i \<and> i \<noteq> []"
  by (auto simp add: sentIdOf_def Let_def)

lemma sentPaymentIds_iff:
  "i \<in> sentPaymentIds changed today ls \<longleftrightarrow>
     \<not> changed \<and> i \<noteq> [] \<and>
     (\<exists>l\<in>set ls. paymentId l = Some i \<and> status l = L_success \<and>
        map_option toDateString (sentAt l) = Some today)"
proof -
  have "set (List.map_filter (sentIdOf today) ls) = {i. \<exists>l\<in>set ls. sentIdOf today l = Some i}"
    by (force simp add: List.map_filter_def)
  then show ?thesis
    by (auto simp add: sentPaymentIds_def sentIdOf_Some)
qed

lemma toSend_iff:
  "p \<in> set (paymentsToSend now r st payments) \<longleftrightarrow>
     p \<in> set (actionablePayments now payments) \<and>
     \<not> (lastEmailSentTo st = Some r \<and> p_id p \<noteq> [] \<and>
        (\<exists>l\<in>set (emailLogs st). paymentId l = Some (p_id p) \<and> status l = L_success \<and>
           map_option toDateString (sentAt l) = Some (toDateString now)))"
  by (auto simp add: paymentsToSend_def Let_def sentPaymentIds_iff)



lemma notified_all:
  assumes "\<not> isSendingRef st"
    and "paymentsToSend now r st payments = ts"
    and "\<forall>k<length ts. notify w k (ts ! k) r \<noteq> R_missing_config"
    and "p \<in> set ts"
  shows "Notify p r \<in> set (snd (checkAndSendEmails w payments r now st))"
proof -
  from assms(4) have ne: "ts \<noteq> []" by auto
  from assms(4) obtain j where j: "j < length ts" "ts ! j = p"
    by (auto simp add: in_set_conv_nth)
  have "snd (checkAndSendEmails w payments r now st) =
          concat (map (\<lambda>j. Notify (ts ! j) r # (if length ts > 1 then [Wait 2500] else []))
                     [0..<length ts])"
    unfolding check_run [OF assms(1,2) ne] Let_def
    using runLoop_fields(2) [of "length ts" ts w r st] assms(3) by simp
  with j show ?thesis by force
qed

section \<open>The outcome of a run\<close>

text \<open>
  Claim C2: for every run that reaches the send loop (no run in progress, something to
  send) and in which no answer of the notifier is \<^verbatim>\<open>missing_config\<close>: the final status is
  \<^verbatim>\<open>sent\<close> exactly when some send succeeded and none failed; in that case the stored
  last-dispatch date is today's and the stored recipient the current one, and in every
  other case both are as before; the final status is \<^verbatim>\<open>error\<close> exactly when some send
  failed, whether or not others succeeded, and then both are as before.
\<close>

theorem final_status_without_abort:
  assumes "\<not> isSendingRef st"
    and "paymentsToSend now r st payments = ts"
    and "ts \<noteq> []"
    and "\<forall>k<length ts. notify w k (ts ! k) r \<noteq> R_missing_config"
    and "fst (checkAndSendEmails w payments r now st) = st'"
  shows "(emailStatus st' = S_sent \<longleftrightarrow>
            (\<exists>k<length ts. notify w k (ts ! k) r = R_success) \<and>
            (\<forall>k<length ts. notify w k (ts ! k) r \<noteq> R_error)) \<and>
         (emailStatus st' = S_sent \<longrightarrow>
            lastEmailSentDate st' = Some (toDateString now) \<and> lastEmailSentTo st' = Some r) \<and>
         (emailStatus st' \<noteq> S_sent \<longrightarrow>
            lastEmailSentDate st' = lastEmailSentDate st \<and>
            lastEmailSentTo st' = lastEmailSentTo st) \<and>
         (emailStatus st' = S_error \<longleftrightarrow> (\<exists>k<length ts. notify w k (ts ! k) r = R_error)) \<and>
         (emailStatus st' = S_error \<longrightarrow>
            lastEmailSentDate st' = lastEmailSentDate st \<and>
            lastEmailSentTo st' = lastEmailSentTo st)"
proof -
  let ?ls = "runLoop w r ts st"
  have m: "\<not> missingConfig ?ls"
    using runLoop_fields(3) [of "length ts" ts w r st] assms(4) by simp
  have e: "hasErrors ?ls = (\<exists>k<length ts. notify w k (ts ! k) r = R_error)"
    using runLoop_fields(4) [of "length ts" ts w r st] assms(4) by simp
  have s: "(0 < sentCount ?ls) = (\<exists>k<length ts. notify w k (ts ! k) r = R_success)"
    using runLoop_fields(5) [of "length ts" ts w r st] assms(4) by simp
  have st': "st' = fst (checkAndSendEmails w payments r now st)"
    using assms(5) by simp
  show ?thesis
    unfolding st' check_run [OF assms(1,2,3)] Let_def
    using m e s by auto
qed

theorem final_status_without_abort_witness:
  "\<not> isSendingRef fresh \<and>
   paymentsToSend march3 me fresh [power3, gym1] = [power3, gym1] \<and>
   notify (second_answers R_error) 0 ([power3, gym1] ! 0) me = R_success \<and>
   notify (second_answers R_error) 1 ([power3, gym1] ! 1) me = R_error \<and>
   emailStatus (fst (checkAndSendEmails (second_answers R_error) [power3, gym1] me march3 fresh))
     = S_error \<and>
   lastEmailSentDate
     (fst (checkAndSendEmails (second_answers R_error) [power3, gym1] me march3 fresh)) = None \<and>
   lastEmailSentTo
     (fst (checkAndSendEmails (second_answers R_error) [power3, gym1] me march3 fresh)) = None \<and>
   emailStatus (fst (checkAndSendEmails (always R_success) [power3, gym1] me march3 fresh))
     = S_sent \<and>
   lastEmailSentDate
     (fst (checkAndSendEmails (always R_success) [power3, gym1] me march3 fresh))
     = Some (toDateString march3) \<and>
   lastEmailSentTo
     (fst (checkAndSendEmails (always R_success) [power3, gym1] me march3 fresh)) = Some me"
proof -
  have a: "\<not> isSendingRef fresh" by (simp add: fresh_def)
  have b: "paymentsToSend march3 me fresh [power3, gym1] = [power3, gym1]" by code_simp
  have c: "[power3, gym1] \<noteq> []" by simp
  have d: "\<forall>k<length [power3, gym1].
      notify (second_answers R_error) k ([power3, gym1] ! k) me \<noteq> R_missing_config"
    by (simp add: second_answers_def)
  have d': "\<forall>k<length [power3, gym1].
      notify (always R_success) k ([power3, gym1] ! k) me \<noteq> R_missing_config"
    by (simp add: always_def)
  have e: "\<exists>k<length [power3, gym1].
      notify (second_answers R_error) k ([power3, gym1] ! k) me = R_error"
    by (rule exI [of _ 1]) (simp add: second_answers_def)
  have f: "\<exists>k<length [power3, gym1].
      notify (always R_success) k ([power3, gym1] ! k) me = R_success"
    by (rule exI [of _ 0]) (simp add: always_def)
  have g: "\<forall>k<length [power3, gym1].
      notify (always R_success) k ([power3, gym1] ! k) me \<noteq> R_error"
    by (simp add: always_def)
  have i: "lastEmailSentDate fresh = None" "lastEmailSentTo fresh = None"
    by (simp_all add: fresh_def)
  show ?thesis
    using final_status_without_abort [OF a b c d refl]
      final_status_without_abort [OF a b c d' refl] a b d e f g i
    by (simp add: second_answers_def del: length_Cons)
qed


text \<open>
  Claim C4: for every run in which the notifier answers \<^verbatim>\<open>missing_config\<close>, at position
  \<open>k0\<close> of the list to send for the first time: the loop stops there (the call for item
  \<open>k0\<close> is the last effect of the run), the new log entries are those of the items before
  \<open>k0\<close> and no others, the final status is \<^verbatim>\<open>missing_config\<close>, and the stored
  last-dispatch date and recipient are as before.
\<close>

theorem missing_config_aborts:
  assumes "\<not> isSendingRef st"
    and "paymentsToSend now r st payments = ts"
    and "k0 < length ts"
    and "notify w k0 (ts ! k0) r = R_missing_config"
    and "\<forall>j<k0. notify w j (ts ! j) r \<noteq> R_missing_config"
    and "checkAndSendEmails w payments r now st = (st', effs)"
  shows "emailStatus st' = S_missing_config \<and>
         emailLogs st' =
           rev (map (\<lambda>j. logFor w j (ts ! j) (notify w j (ts ! j) r)) [0..<k0]) @ emailLogs st \<and>
         effs =
           concat (map (\<lambda>j. Notify (ts ! j) r # (if length ts > 1 then [Wait 2500] else []))
                     [0..<k0]) @ [Notify (ts ! k0) r] \<and>
         lastEmailSentDate st' = lastEmailSentDate st \<and>
         lastEmailSentTo st' = lastEmailSentTo st \<and>
         lastSentTo st' = lastSentTo st"
proof -
  let ?ls = "runLoop w r ts st"
  have ne: "ts \<noteq> []" using assms(3) by auto
  have k: "k0 \<le> length ts" using assms(3) by simp
  have c: "k0 < length ts \<longrightarrow> notify w k0 (ts ! k0) r = R_missing_config"
    using assms(4) by simp
  have m: "missingConfig ?ls"
    using runLoop_fields(3) [OF k assms(5) c, of st] assms(3) by simp
  have l: "logs ?ls =
           rev (map (\<lambda>j. logFor w j (ts ! j) (notify w j (ts ! j) r)) [0..<k0]) @ emailLogs st"
    using runLoop_fields(1) [OF k assms(5) c] .
  have f: "done_effects ?ls =
           concat (map (\<lambda>j. Notify (ts ! j) r # (if length ts > 1 then [Wait 2500] else []))
                     [0..<k0]) @ [Notify (ts ! k0) r]"
    using runLoop_fields(2) [OF k assms(5) c, of st] assms(3) by simp
  show ?thesis
    using assms(6) m l f unfolding check_run [OF assms(1,2) ne] Let_def
    by auto
qed

theorem missing_config_aborts_witness:
  "\<not> isSendingRef fresh \<and>
   paymentsToSend march3 me fresh [power3, gym1, water4] = [power3, gym1, water4] \<and>
   notify (second_answers R_missing_config) 1 ([power3, gym1, water4] ! 1) me
     = R_missing_config \<and>
   notify (second_answers R_missing_config) 0 ([power3, gym1, water4] ! 0) me = R_success \<and>
   emailStatus
     (fst (checkAndSendEmails (second_answers R_missing_config) [power3, gym1, water4]
             me march3 fresh)) = S_missing_config \<and>
   emailLogs
     (fst (checkAndSendEmails (second_answers R_missing_config) [power3, gym1, water4]
             me march3 fresh)) = [logFor (second_answers R_missing_config) 0 power3 R_success] \<and>
   snd (checkAndSendEmails (second_answers R_missing_config) [power3, gym1, water4]
          me march3 fresh) = [Notify power3 me, Wait 2500, Notify gym1 me] \<and>
   lastEmailSentDate
     (fst (checkAndSendEmails (second_answers R_missing_config) [power3, gym1, water4]
             me march3 fresh)) = None \<and>
   notify (emailjs_with placeholders) 0 ([power3, gym1, water4] ! 0) me = R_missing_config \<and>
   emailStatus
     (fst (checkAndSendEmails (emailjs_with placeholders) [power3, gym1, water4]
             me march3 fresh)) = S_missing_config \<and>
   emailLogs
     (fst (checkAndSendEmails (emailjs_with placeholders) [power3, gym1, water4]
             me march3 fresh)) = [] \<and>
   snd (checkAndSendEmails (emailjs_with placeholders) [power3, gym1, water4]
          me march3 fresh) = [Notify power3 me]"
proof -
  let ?w = "second_answers R_missing_config" and ?v = "emailjs_with placeholders"
  let ?ts = "[power3, gym1, water4]"
  have r1: "checkAndSendEmails ?w ?ts me march3 fresh =
            (fst (checkAndSendEmails ?w ?ts me march3 fresh),
             snd (checkAndSendEmails ?w ?ts me march3 fresh))"
    by simp
  have r2: "checkAndSendEmails ?v ?ts me march3 fresh =
            (fst (checkAndSendEmails ?v ?ts me march3 fresh),
             snd (checkAndSendEmails ?v ?ts me march3 fresh))"
    by simp
  have a: "\<not> isSendingRef fresh" by (simp add: fresh_def)
  have b: "paymentsToSend march3 me fresh ?ts = ?ts" by code_simp
  have k1: "1 < length ?ts" and k0: "0 < length ?ts" by simp_all
  have m1: "notify ?w 1 (?ts ! 1) me = R_missing_config"
    by (simp add: second_answers_def)
  have p1: "\<forall>j<1. notify ?w j (?ts ! j) me \<noteq> R_missing_config"
    by (simp add: second_answers_def)
  have m0: "notify ?v 0 (?ts ! 0) me = R_missing_config"
    by (simp add: emailjs_with_def placeholders_def sendPaymentReminderEmail_def startsWith_def)
  have p0: "\<forall>j<0. notify ?v j (?ts ! j) me \<noteq> R_missing_config"
    by simp
  have n: "notify ?w 0 power3 me = R_success"
    by (simp add: second_answers_def)
  have i: "lastEmailSentDate fresh = None" "emailLogs fresh = []"
    by (simp_all add: fresh_def)
  show ?thesis
    using missing_config_aborts [OF a b k1 m1 p1 r1]
      missing_config_aborts [OF a b k0 m0 p0 r2] a b m1 p1 m0 n i
    by simp
qed

text \<open>
  Claim C5, as the specification states it: the 2.5 second wait follows a send only if
  more than one item remains after it, never after the final item of the run. The code
  tests the length of the whole list instead: in a run of two items that both succeed
  the wait is performed after the first item, when one item remains, and again after the
  second and final one.
\<close>

theorem wait_only_between_sends_counterexample:
  "paymentsToSend march3 me fresh [power3, gym1] = [power3, gym1] \<and>
   snd (checkAndSendEmails (always R_success) [power3, gym1] me march3 fresh) =
     [Notify power3 me, Wait 2500, Notify gym1 me, Wait 2500]"
  by code_simp

text \<open>
  Claim C5, amended: in every run that reaches the send loop, the wait of 2.5 seconds
  follows every call of the notifier that did not answer \<^verbatim>\<open>missing_config\<close> exactly when
  the list to send has more than one item, the final item included; a run of one item
  waits nowhere, and no wait follows a \<^verbatim>\<open>missing_config\<close> answer. Here \<open>n\<close> is the number
  of items the run logs.
\<close>

theorem wait_after_every_logged_send:
  assumes "\<not> isSendingRef st"
    and "paymentsToSend now r st payments = ts"
    and "ts \<noteq> []"
    and "n \<le> length ts"
    and "\<forall>j<n. notify w j (ts ! j) r \<noteq> R_missing_config"
    and "n < length ts \<longrightarrow> notify w n (ts ! n) r = R_missing_config"
  shows "snd (checkAndSendEmails w payments r now st) =
           concat (map (\<lambda>j. Notify (ts ! j) r # (if length ts > 1 then [Wait 2500] else []))
                     [0..<n])
             @ (if n < length ts then [Notify (ts ! n) r] else [])"
  unfolding check_run [OF assms(1,2,3)] Let_def
  using runLoop_fields(2) [OF assms(4,5,6), of st]
  by simp

theorem wait_after_every_logged_send_witness:
  "\<not> isSendingRef fresh \<and>
   paymentsToSend march3 me fresh [power3, gym1] = [power3, gym1] \<and>
   notify (always R_error) 0 ([power3, gym1] ! 0) me = R_error \<and>
   notify (always R_error) 1 ([power3, gym1] ! 1) me = R_error \<and>
   snd (checkAndSendEmails (always R_error) [power3, gym1] me march3 fresh) =
     [Notify power3 me, Wait 2500, Notify gym1 me, Wait 2500] \<and>
   paymentsToSend march3 me fresh [power3] = [power3] \<and>
   notify (always R_error) 0 ([power3] ! 0) me = R_error \<and>
   snd (checkAndSendEmails (always R_error) [power3] me march3 fresh) = [Notify power3 me]"
proof -
  have a: "\<not> isSendingRef fresh" by (simp add: fresh_def)
  have b2: "paymentsToSend march3 me fresh [power3, gym1] = [power3, gym1]" by code_simp
  have b1: "paymentsToSend march3 me fresh [power3] = [power3]" by code_simp
  have c2: "[power3, gym1] \<noteq> []" and c1: "[power3] \<noteq> []" by simp_all
  have n2: "2 \<le> length [power3, gym1]" and n1: "1 \<le> length [power3]" by simp_all
  have d2: "\<forall>j<2. notify (always R_error) j ([power3, gym1] ! j) me \<noteq> R_missing_config"
    by (simp add: always_def)
  have d1: "\<forall>j<1. notify (always R_error) j ([power3] ! j) me \<noteq> R_missing_config"
    by (simp add: always_def)
  have e2: "2 < length [power3, gym1] \<longrightarrow>
      notify (always R_error) 2 ([power3, gym1] ! 2) me = R_missing_config"
    by simp
  have e1: "1 < length [power3] \<longrightarrow>
      notify (always R_error) 1 ([power3] ! 1) me = R_missing_config"
    by simp
  have u: "[0..<2] = [0, 1]" by (simp add: upt_rec)
  show ?thesis
    using wait_after_every_logged_send [OF a b2 c2 n2 d2 e2]
      wait_after_every_logged_send [OF a b1 c1 n1 d1 e1] a b2 b1 d2 d1 u
    by (simp add: always_def)
qed

section \<open>Which payments a run sends\<close>




text \<open>
  Claim C10: a log entry without \<^verbatim>\<open>paymentId\<close> adds nothing to the set of ids already
  sent, with or without it the set is the same, even when its status is success and its
  date today's; and every actionable payment for which no entry with its own id is a
  success of today is in the list to send, and is handed to the notifier in every run in
  which the notifier never answers \<^verbatim>\<open>missing_config\<close>.
\<close>

theorem absent_paymentId_never_dedups:
  shows "(paymentId log = None \<longrightarrow>
            sentIdOf today log = None \<and>
            sentPaymentIds changed today (before @ log # after) =
              sentPaymentIds changed today (before @ after)) \<and>
         (p \<in> set (actionablePayments now payments) \<and>
          (\<forall>l\<in>set (emailLogs st).
              paymentId l = Some (p_id p) \<longrightarrow>
              \<not> (status l = L_success \<and>
                 map_option toDateString (sentAt l) = Some (toDateString now))) \<longrightarrow>
            p \<in> set (paymentsToSend now r st payments) \<and>
            (\<not> isSendingRef st \<and>
             (\<forall>k<length (paymentsToSend now r st payments).
                 notify w k (paymentsToSend now r st payments ! k) r \<noteq> R_missing_config) \<longrightarrow>
             Notify p r \<in> set (snd (checkAndSendEmails w payments r now st))))"
proof (intro conjI impI)
  assume a: "paymentId log = None"
  then show s: "sentIdOf today log = None"
    by (simp add: sentIdOf_def)
  show "sentPaymentIds changed today (before @ log # after) =
        sentPaymentIds changed today (before @ after)"
    using a by (auto simp add: sentPaymentIds_iff)
next
  assume b: "p \<in> set (actionablePayments now payments) \<and>
          (\<forall>l\<in>set (emailLogs st).
              paymentId l = Some (p_id p) \<longrightarrow>
              \<not> (status l = L_success \<and>
                 map_option toDateString (sentAt l) = Some (toDateString now)))"
  then show m: "p \<in> set (paymentsToSend now r st payments)"
    by (auto simp add: toSend_iff)
  assume "\<not> isSendingRef st \<and>
             (\<forall>k<length (paymentsToSend now r st payments).
                 notify w k (paymentsToSend now r st payments ! k) r \<noteq> R_missing_config)"
  then show "Notify p r \<in> set (snd (checkAndSendEmails w payments r now st))"
    using notified_all [OF _ refl _ m] by blast
qed

theorem absent_paymentId_never_dedups_witness:
  "paymentId (logged_today None) = None \<and>
   status (logged_today None) = L_success \<and>
   map_option toDateString (sentAt (logged_today None)) = Some (toDateString march3) \<and>
   lastEmailSentTo (after_log (logged_today None)) = Some me \<and>
   sentPaymentIds False (toDateString march3) ([] @ logged_today None # []) = {} \<and>
   gym1 \<in> set (actionablePayments march3 [power3, gym1]) \<and>
   gym1 \<in> set (paymentsToSend march3 me (after_log (logged_today None)) [power3, gym1]) \<and>
   Notify gym1 me \<in> set (snd (checkAndSendEmails (always R_success) [power3, gym1] me march3
                                 (after_log (logged_today None))))"
proof -
  let ?l = "logged_today None"
  let ?st = "after_log ?l"
  have a: "paymentId ?l = None" "status ?l = L_success"
    "map_option toDateString (sentAt ?l) = Some (toDateString march3)"
    "lastEmailSentTo ?st = Some me"
    by (simp_all add: logged_today_def after_log_def)
  have e: "sentPaymentIds False (toDateString march3) ([] @ []) = {}"
    by (simp add: sentPaymentIds_def)
  have b: "gym1 \<in> set (actionablePayments march3 [power3, gym1]) \<and>
          (\<forall>l\<in>set (emailLogs ?st).
              paymentId l = Some (p_id gym1) \<longrightarrow>
              \<not> (status l = L_success \<and>
                 map_option toDateString (sentAt l) = Some (toDateString march3)))"
  proof
    show "gym1 \<in> set (actionablePayments march3 [power3, gym1])" by code_simp
    show "\<forall>l\<in>set (emailLogs ?st).
              paymentId l = Some (p_id gym1) \<longrightarrow>
              \<not> (status l = L_success \<and>
                 map_option toDateString (sentAt l) = Some (toDateString march3))"
      by (simp add: after_log_def logged_today_def)
  qed
  have d: "\<not> isSendingRef ?st \<and>
      (\<forall>k<length (paymentsToSend march3 me ?st [power3, gym1]).
         notify (always R_success) k (paymentsToSend march3 me ?st [power3, gym1] ! k) me
           \<noteq> R_missing_config)"
    by (simp add: after_log_def always_def)
  show ?thesis
    using absent_paymentId_never_dedups
        [of ?l "toDateString march3" False "[]" "[]" gym1 march3 "[power3, gym1]" ?st me
            "always R_success"]
      a e b d
    by simp
qed

end
